theory Spec2Isabelle
  imports Main
begin

section \<open>The notebook server application object\<close>

text \<open>
  The development follows \<^verbatim>\<open>IPython/frontend/html/notebook/notebookapp.py\<close>.
  The record \<open>NotebookApp\<close> holds the attributes of \<^verbatim>\<open>self\<close> that the lifecycle
  code reads or writes: the configurable traits, the logger's output, the sockets the
  HTTP server listens on, and (as a trace) the ports handed to
  \<^verbatim>\<open>http_server.listen\<close>.
\<close>

datatype level = INFO | CRITICAL

datatype signum = SIGINT | SIGTERM

text \<open>The log messages of the lifecycle code, with their format arguments.\<close>

datatype msg =
    InsecureWarning
  | PortInUse int
  | ShutdownConfirmed
  | ReceivedSignal signum
  | RunningAt string string int string
  | UseControlC
  | Interrupted
  | ShuttingDownKernels

datatype exn =
    SocketError int
  | WebbrowserError
  | KeyboardInterrupt
  | OtherError string

record NotebookApp =
  ip :: string
  port :: int
  certfile :: string
  keyfile :: string
  password :: string
  open_browser :: bool
  browser :: string
  read_only :: bool
  base_project_url :: string
  log :: "(level \<times> msg) list"
  http_server :: "(int \<times> string) list"
  listen_calls :: "int list"

definition LOCALHOST :: string where
  "LOCALHOST = ''127.0.0.1''"

text \<open>The trait defaults of the class body; nothing logged, nothing bound.\<close>

definition default_app :: NotebookApp where
  "default_app =
     \<lparr> ip = LOCALHOST, port = 8888, certfile = [], keyfile = [], password = [],
       open_browser = True, browser = [], read_only = False,
       base_project_url = ''/'', log = [], http_server = [], listen_calls = [] \<rparr>"

subsection \<open>Assigning the \<open>ip\<close> trait\<close>

text \<open>
  \<^verbatim>\<open>
  def _ip_changed(self, name, old, new):
      if new == u'*': self.ip = u''
  \<close>
  The handler is run by the trait machinery of \<^verbatim>\<open>IPython.utils.traitlets\<close>, which is
  not part of the modelled file: an assignment \<^verbatim>\<open>self.ip = v\<close> stores \<open>v\<close> and, when
  the stored value changed, calls \<^verbatim>\<open>self._ip_changed('ip', old, v)\<close>. The
  assignment inside the handler is again a trait assignment, hence the mutual recursion.
\<close>

function set_ip :: "NotebookApp \<Rightarrow> string \<Rightarrow> NotebookApp"
  and ip_changed :: "NotebookApp \<Rightarrow> string \<Rightarrow> string \<Rightarrow> NotebookApp" where
  "set_ip a new =
     (let old = ip a in
      if old \<noteq> new then ip_changed (a\<lparr>ip := new\<rparr>) old new else a)"
| "ip_changed a old new = (if new = ''*'' then set_ip a [] else a)"
  by pat_completeness auto
termination
  by (relation "measure (\<lambda>x. case x of
        Inl (a, new) \<Rightarrow> (if new = ''*'' then 3 else 1)
      | Inr (a, old, new) \<Rightarrow> (if new = ''*'' then 2 else 0))") auto

subsection \<open>Binding the listener: \<open>init_webapp\<close>\<close>

text \<open>
  \<^verbatim>\<open>
  if self.certfile:
      ssl_options = dict(certfile=self.certfile)
      if self.keyfile:
          ssl_options['keyfile'] = self.keyfile
  else:
      ssl_options = None
  \<close>
\<close>

definition ssl_options :: "NotebookApp \<Rightarrow> (string \<times> string option) option" where
  "ssl_options a =
     (if certfile a \<noteq> [] then
        Some (certfile a, if keyfile a \<noteq> [] then Some (keyfile a) else None)
      else None)"

text \<open>
  \<^verbatim>\<open>
  if ssl_options is None and not self.ip and not (self.read_only and not self.password):
      self.log.critical('WARNING: the notebook server is listening on all IP addresses ...')
  \<close>
\<close>

definition security_check :: "NotebookApp \<Rightarrow> NotebookApp" where
  "security_check a =
     (if ssl_options a = None \<and> ip a = [] \<and> \<not> (read_only a \<and> password a = [])
      then a\<lparr>log := log a @ [(CRITICAL, InsecureWarning)]\<rparr>
      else a)"

text \<open>
  \<^verbatim>\<open>random.randint(a, b)\<close> is a library function returning some integer \<open>N\<close> with
  \<open>a \<le> N \<le> b\<close>. The generator's state is not modelled; each call consumes one raw
  draw \<open>raw\<close>, and every value of the range is the result of some draw.
\<close>

definition randint :: "int \<Rightarrow> int \<Rightarrow> nat \<Rightarrow> int" where
  "randint a b raw = a + int (raw mod nat (b - a + 1))"

text \<open>\<^verbatim>\<open>n = 50  # Max number of attempts, keep reasonably large.\<close>\<close>

definition n_attempts :: int where
  "n_attempts = 50"

text \<open>
  \<^verbatim>\<open>
  range(self.port, self.port+5) + [self.port + randint(-2*n, 2*n) for i in range(n-5)]
  \<close>
  The \<open>i\<close>-th element of the comprehension uses the \<open>i\<close>-th raw draw.
\<close>

definition candidates :: "int \<Rightarrow> (nat \<Rightarrow> nat) \<Rightarrow> int list" where
  "candidates p raw =
     [p..p + 4] @
     map (\<lambda>i. p + randint (- 2 * n_attempts) (2 * n_attempts) (raw i))
       [0..<nat (n_attempts - 5)]"

text \<open>
  \<^verbatim>\<open>http_server.listen(port, ip)\<close> either returns, with the server listening on
  \<open>(port, ip)\<close>, or raises. What it does for a given port and host is the
  environment's answer, a parameter of the model, taken to stay the same during one scan.
  An exception that is not a \<^verbatim>\<open>socket.error\<close> (a port outside 0..65535 raises
  \<^verbatim>\<open>OverflowError\<close>) is not caught by the loop.
\<close>

datatype listen_result = Listening | Raises exn

definition EADDRINUSE :: int where
  "EADDRINUSE = 98"

text \<open>
  \<^verbatim>\<open>
  for port in <candidates>:
      try:
          self.http_server.listen(port, self.ip)
      except socket.error, e:
          if e.errno != errno.EADDRINUSE:
              raise
          self.log.info('The port %i is already in use, trying another random port.' % port)
      else:
          self.port = port
          break
  \<close>
  The result pairs the application object as the loop leaves it with the exception that
  propagates out of the loop, if any.
\<close>

fun listen_loop ::
  "(int \<Rightarrow> string \<Rightarrow> listen_result) \<Rightarrow> int list \<Rightarrow> NotebookApp \<Rightarrow> NotebookApp \<times> exn option" where
  "listen_loop listen [] a = (a, None)"
| "listen_loop listen (p # ps) a =
     (let a1 = a\<lparr>listen_calls := listen_calls a @ [p]\<rparr> in
      case listen p (ip a) of
        Listening \<Rightarrow> (a1\<lparr>http_server := http_server a1 @ [(p, ip a)], port := p\<rparr>, None)
      | Raises (SocketError e) \<Rightarrow>
          if e \<noteq> EADDRINUSE then (a1, Some (SocketError e))
          else listen_loop listen ps (a1\<lparr>log := log a1 @ [(INFO, PortInUse p)]\<rparr>)
      | Raises x \<Rightarrow> (a1, Some x))"

text \<open>
  \<open>init_webapp\<close> first builds the web application and the HTTP server object, which
  touches nothing modelled here, then runs the security check and the port scan.
\<close>

definition init_webapp ::
  "(int \<Rightarrow> string \<Rightarrow> listen_result) \<Rightarrow> (nat \<Rightarrow> nat) \<Rightarrow> NotebookApp \<Rightarrow> NotebookApp \<times> exn option" where
  "init_webapp listen raw a =
     (let a1 = security_check a in listen_loop listen (candidates (port a1) raw) a1)"

section \<open>The signal handlers\<close>

text \<open>
  Signal dispositions and the event loop are global to the process. The record
  \<open>process\<close> holds the application object together with the handler registered for each
  signal, whether \<^verbatim>\<open>IOLoop.stop()\<close> has been called, the callbacks queued with
  \<^verbatim>\<open>IOLoop.add_callback\<close>, the number of running \<^verbatim>\<open>_confirm_exit\<close> threads, what
  was written to standard output, and the signals that met the default disposition.
\<close>

datatype handler = SIG_DFL | Handle_sigint | Signal_stop

datatype callback = Restore_sigint_handler

record process =
  self :: NotebookApp
  sigint_handler :: handler
  sigterm_handler :: handler
  loop_stopped :: bool
  callbacks :: "callback list"
  confirm_threads :: nat
  stdout :: "string list"
  unhandled :: "signum list"

text \<open>A freshly started process around an application object.\<close>

definition new_process :: "NotebookApp \<Rightarrow> process" where
  "new_process a =
     \<lparr> self = a, sigint_handler = SIG_DFL, sigterm_handler = SIG_DFL, loop_stopped = False,
       callbacks = [], confirm_threads = 0, stdout = [], unhandled = [] \<rparr>"

text \<open>
  \<^verbatim>\<open>
  def init_signal(self):
      signal.signal(signal.SIGINT, self._handle_sigint)
      signal.signal(signal.SIGTERM, self._signal_stop)
  \<close>
\<close>

definition init_signal :: "process \<Rightarrow> process" where
  "init_signal p = p\<lparr>sigint_handler := Handle_sigint, sigterm_handler := Signal_stop\<rparr>"

text \<open>
  \<^verbatim>\<open>
  def _handle_sigint(self, sig, frame):
      signal.signal(signal.SIGINT, self._signal_stop)
      thread = threading.Thread(target=self._confirm_exit)
      thread.daemon = True
      thread.start()
  \<close>
\<close>

definition handle_sigint :: "signum \<Rightarrow> process \<Rightarrow> process" where
  "handle_sigint sig p =
     p\<lparr>sigint_handler := Signal_stop, confirm_threads := Suc (confirm_threads p)\<rparr>"

text \<open>
  \<^verbatim>\<open>
  def _restore_sigint_handler(self):
      signal.signal(signal.SIGINT, self._handle_sigint)
  \<close>
\<close>

definition restore_sigint_handler :: "process \<Rightarrow> process" where
  "restore_sigint_handler p = p\<lparr>sigint_handler := Handle_sigint\<rparr>"

text \<open>
  \<^verbatim>\<open>
  def _signal_stop(self, sig, frame):
      self.log.critical("received signal %s, stopping", sig)
      ioloop.IOLoop.instance().stop()
  \<close>
\<close>

definition signal_stop :: "signum \<Rightarrow> process \<Rightarrow> process" where
  "signal_stop sig p =
     p\<lparr>self := (self p)\<lparr>log := log (self p) @ [(CRITICAL, ReceivedSignal sig)]\<rparr>,
       loop_stopped := True\<rparr>"

text \<open>Delivery of a signal runs the handler registered for it at that moment.\<close>

definition run_handler :: "handler \<Rightarrow> signum \<Rightarrow> process \<Rightarrow> process" where
  "run_handler h sig p =
     (case h of
        Handle_sigint \<Rightarrow> handle_sigint sig p
      | Signal_stop \<Rightarrow> signal_stop sig p
      | SIG_DFL \<Rightarrow> p\<lparr>unhandled := unhandled p @ [sig]\<rparr>)"

definition deliver :: "signum \<Rightarrow> process \<Rightarrow> process" where
  "deliver sig p =
     (case sig of
        SIGINT \<Rightarrow> run_handler (sigint_handler p) sig p
      | SIGTERM \<Rightarrow> run_handler (sigterm_handler p) sig p)"

subsection \<open>The confirmation thread\<close>

text \<open>
  \<^verbatim>\<open>r,w,x = select.select([sys.stdin], [], [], 5)\<close> waits until standard input is
  readable or the timeout (in seconds) has passed. The terminal is the environment:
  \<open>None\<close> when nothing is ever typed, \<open>Some (t, line)\<close> when \<open>line\<close> becomes readable
  \<open>t\<close> seconds after the call. The result is the line to be read, if the stream is
  ready, and the time spent waiting.
\<close>

definition select_stdin :: "nat \<Rightarrow> (nat \<times> string) option \<Rightarrow> string option \<times> nat" where
  "select_stdin timeout inp =
     (case inp of
        None \<Rightarrow> (None, timeout)
      | Some (t, line) \<Rightarrow> if t \<le> timeout then (Some line, t) else (None, timeout))"

text \<open>\<^verbatim>\<open>str.lower\<close> on the ASCII letters, and \<^verbatim>\<open>str.startswith\<close>.\<close>

definition lower_char :: "char \<Rightarrow> char" where
  "lower_char c =
     (let k = (of_char c :: nat) in if 65 \<le> k \<and> k \<le> 90 then char_of (k + 32) else c)"

definition lower :: "string \<Rightarrow> string" where
  "lower s = map lower_char s"

definition startswith :: "string \<Rightarrow> string \<Rightarrow> bool" where
  "startswith s pre = (take (length pre) s = pre)"

text \<open>
  \<^verbatim>\<open>
  def _confirm_exit(self):
      sys.stdout.write("Shutdown Notebook Server (y/[n])? ")
      sys.stdout.flush()
      r,w,x = select.select([sys.stdin], [], [], 5)
      if r:
          line = sys.stdin.readline()
          if line.lower().startswith('y'):
              self.log.critical("Shutdown confirmed")
              ioloop.IOLoop.instance().stop()
              return
      else:
          print "No answer for 5s:",
      print "resuming operation..."
      ioloop.IOLoop.instance().add_callback(self._restore_sigint_handler)
  \<close>
  The function is the whole run of the thread, so each path ends with the thread gone.
\<close>

definition resume :: "process \<Rightarrow> process" where
  "resume p =
     p\<lparr>stdout := stdout p @ [''resuming operation...''],
       callbacks := callbacks p @ [Restore_sigint_handler],
       confirm_threads := confirm_threads p - 1\<rparr>"

definition confirm_exit :: "(nat \<times> string) option \<Rightarrow> process \<Rightarrow> process" where
  "confirm_exit inp p =
     (let p1 = p\<lparr>stdout := stdout p @ [''Shutdown Notebook Server (y/[n])? '']\<rparr> in
      case fst (select_stdin 5 inp) of
        Some line \<Rightarrow>
          if startswith (lower line) ''y'' then
            p1\<lparr>self := (self p1)\<lparr>log := log (self p1) @ [(CRITICAL, ShutdownConfirmed)]\<rparr>,
               loop_stopped := True,
               confirm_threads := confirm_threads p1 - 1\<rparr>
          else resume p1
      | None \<Rightarrow> resume (p1\<lparr>stdout := stdout p1 @ [''No answer for 5s:'']\<rparr>))"

definition confirm_wait :: "(nat \<times> string) option \<Rightarrow> nat" where
  "confirm_wait inp = snd (select_stdin 5 inp)"

text \<open>
  The event loop runs the callbacks queued with \<^verbatim>\<open>add_callback\<close> on its own thread,
  each once, in the order they were queued.
\<close>

definition run_callback :: "callback \<Rightarrow> process \<Rightarrow> process" where
  "run_callback c p = (case c of Restore_sigint_handler \<Rightarrow> restore_sigint_handler p)"

definition run_callbacks :: "process \<Rightarrow> process" where
  "run_callbacks p = foldl (\<lambda>q c. run_callback c q) (p\<lparr>callbacks := []\<rparr>) (callbacks p)"

text \<open>
  The three states of the signal coordinator, read off the process: the loop has been
  asked to stop; or the forceful handler is registered for the interrupt signal while a
  confirmation is outstanding; or neither.
\<close>

datatype SignalState = Normal | ConfirmPending | ForcedStop

definition signal_state :: "process \<Rightarrow> SignalState" where
  "signal_state p =
     (if loop_stopped p then ForcedStop
      else if sigint_handler p = Signal_stop then ConfirmPending
      else Normal)"

section \<open>Running the server: \<open>start\<close> and \<open>cleanup_kernels\<close>\<close>

type_synonym kernel_id = string

text \<open>
  The kernel manager (\<^verbatim>\<open>MappingKernelManager\<close>) is not part of the modelled file. Its
  state is a type parameter \<open>'r\<close>, and its two members used here are parameters:
  \<open>kernel_ids\<close> reads the identifiers of the running kernels, and \<open>kill_kernel\<close>
  returns the manager's state after the call together with the exception it raised, if
  any.
  \<^verbatim>\<open>
  def cleanup_kernels(self):
      self.log.info('Shutting down kernels')
      km = self.kernel_manager
      # copy list, since kill_kernel deletes keys
      for kid in list(km.kernel_ids):
          km.kill_kernel(kid)
  \<close>
  \<open>kill_all\<close> is the loop over the copied list; it returns the identifiers passed to
  \<open>kill_kernel\<close>, in order, the manager's final state and the exception that ended the
  loop, if any.
\<close>

fun kill_all ::
  "(kernel_id \<Rightarrow> 'r \<Rightarrow> 'r \<times> exn option) \<Rightarrow> kernel_id list \<Rightarrow> 'r \<Rightarrow>
     kernel_id list \<times> 'r \<times> exn option" where
  "kill_all kill_kernel [] km = ([], km, None)"
| "kill_all kill_kernel (kid # kids) km =
     (case kill_kernel kid km of
        (km1, Some e) \<Rightarrow> ([kid], km1, Some e)
      | (km1, None) \<Rightarrow>
          (case kill_all kill_kernel kids km1 of
             (calls, km2, r) \<Rightarrow> (kid # calls, km2, r)))"

definition cleanup_kernels ::
  "('r \<Rightarrow> kernel_id list) \<Rightarrow> (kernel_id \<Rightarrow> 'r \<Rightarrow> 'r \<times> exn option) \<Rightarrow> NotebookApp \<Rightarrow> 'r \<Rightarrow>
     NotebookApp \<times> kernel_id list \<times> 'r \<times> exn option" where
  "cleanup_kernels kernel_ids kill_kernel a km =
     (a\<lparr>log := log a @ [(INFO, ShuttingDownKernels)]\<rparr>,
      kill_all kill_kernel (kernel_ids km) km)"

text \<open>
  What \<open>start\<close> leaves behind: the application object, the kernel manager, the URLs of
  the browser threads it started, whether the event loop was run, the calls of
  \<open>kill_kernel\<close>, and the exception that propagates to the caller, if any.
\<close>

record 'r run =
  app_after :: NotebookApp
  km_after :: 'r
  browser_threads :: "(string \<times> string \<times> int \<times> string) list"
  loop_started :: bool
  kill_calls :: "kernel_id list"
  raised :: "exn option"

text \<open>How \<^verbatim>\<open>ioloop.IOLoop.instance().start()\<close> ends: it returns after a stop request, or an
  exception propagates out of it.\<close>

datatype loop_exit = Stopped | Raised exn

text \<open>
  \<^verbatim>\<open>
  try:
      ioloop.IOLoop.instance().start()
  except KeyboardInterrupt:
      info("Interrupted...")
  finally:
      self.cleanup_kernels()
  \<close>
  \<open>km\<close> is the kernel manager's state when the loop exits. An exception raised in the
  \<^verbatim>\<open>finally\<close> block replaces the one that was propagating.
\<close>

definition run_loop ::
  "loop_exit \<Rightarrow> ('r \<Rightarrow> kernel_id list) \<Rightarrow> (kernel_id \<Rightarrow> 'r \<Rightarrow> 'r \<times> exn option) \<Rightarrow>
     NotebookApp \<Rightarrow> 'r \<Rightarrow> (string \<times> string \<times> int \<times> string) list \<Rightarrow> 'r run" where
  "run_loop ex kernel_ids kill_kernel a km threads =
     (let (a1, pending) =
            (case ex of
               Stopped \<Rightarrow> (a, None)
             | Raised KeyboardInterrupt \<Rightarrow> (a\<lparr>log := log a @ [(INFO, Interrupted)]\<rparr>, None)
             | Raised e \<Rightarrow> (a, Some e))
      in case cleanup_kernels kernel_ids kill_kernel a1 km of
           (a2, calls, km1, r) \<Rightarrow>
             \<lparr> app_after = a2, km_after = km1, browser_threads = threads,
               loop_started = True, kill_calls = calls,
               raised = (case r of Some e \<Rightarrow> Some e | None \<Rightarrow> pending) \<rparr>)"

text \<open>
  \<^verbatim>\<open>
  def start(self):
      ip = self.ip if self.ip else '[all ip addresses on your system]'
      proto = 'https' if self.certfile else 'http'
      info = self.log.info
      info("The IPython Notebook is running at: %s://%s:%i%s" %
           (proto, ip, self.port,self.base_project_url) )
      info("Use Control-C to stop this server and shut down all kernels.")

      if self.open_browser:
          ip = self.ip or '127.0.0.1'
          if self.browser:
              browser = webbrowser.get(self.browser)
          else:
              browser = webbrowser.get()
          b = lambda : browser.open("%s://%s:%i%s" % (proto, ip, self.port,
                                                         self.base_project_url),
                                       new=2)
          threading.Thread(target=b).start()
      try: ...
  \<close>
  \<^verbatim>\<open>webbrowser.get\<close> is the environment's: \<open>webbrowser_get name\<close> is \<open>None\<close> when a
  browser controller is returned and \<open>Some e\<close> when the call raises \<open>e\<close>. What
  \<^verbatim>\<open>browser.open\<close> does inside its thread is not observed by \<open>start\<close>.
\<close>

definition display_ip :: "NotebookApp \<Rightarrow> string" where
  "display_ip a = (if ip a \<noteq> [] then ip a else ''[all ip addresses on your system]'')"

definition browser_ip :: "NotebookApp \<Rightarrow> string" where
  "browser_ip a = (if ip a \<noteq> [] then ip a else ''127.0.0.1'')"

definition proto :: "NotebookApp \<Rightarrow> string" where
  "proto a = (if certfile a \<noteq> [] then ''https'' else ''http'')"

definition start ::
  "(string option \<Rightarrow> exn option) \<Rightarrow> loop_exit \<Rightarrow> ('r \<Rightarrow> kernel_id list) \<Rightarrow>
     (kernel_id \<Rightarrow> 'r \<Rightarrow> 'r \<times> exn option) \<Rightarrow> NotebookApp \<Rightarrow> 'r \<Rightarrow> 'r run" where
  "start webbrowser_get ex kernel_ids kill_kernel a km =
     (let a1 = a\<lparr>log := log a @
                 [(INFO, RunningAt (proto a) (display_ip a) (port a) (base_project_url a)),
                  (INFO, UseControlC)]\<rparr>
      in if open_browser a then
           (case webbrowser_get (if browser a \<noteq> [] then Some (browser a) else None) of
              Some e \<Rightarrow>
                \<lparr> app_after = a1, km_after = km, browser_threads = [], loop_started = False,
                  kill_calls = [], raised = Some e \<rparr>
            | None \<Rightarrow>
                run_loop ex kernel_ids kill_kernel a1 km
                  [(proto a, browser_ip a, port a, base_project_url a)])
         else run_loop ex kernel_ids kill_kernel a1 km [])"

section \<open>The specification's wording, for comparison\<close>

text \<open>
  The candidate sequence as the specification words it: the preferred port and the next
  four, then \<open>max_attempts\<close> further candidates, each drawn from
  \<open>[p - 2 * max_attempts, p + 2 * max_attempts]\<close> and clamped to the valid port range.
\<close>

definition clamp_port :: "int \<Rightarrow> int" where
  "clamp_port p = max 0 (min 65535 p)"

definition spec_candidates :: "int \<Rightarrow> int \<Rightarrow> (nat \<Rightarrow> nat) \<Rightarrow> int list" where
  "spec_candidates p max_attempts raw =
     [p..p + 4] @
     map (\<lambda>i. clamp_port (p + randint (- 2 * max_attempts) (2 * max_attempts) (raw i)))
       [0..<nat max_attempts]"

text \<open>
  The condition of the security warning as the specification words it: no TLS, all
  interfaces, and no password set or read-only mode off.
\<close>

definition spec_security_warning :: "NotebookApp \<Rightarrow> bool" where
  "spec_security_warning a =
     (ssl_options a = None \<and> ip a = [] \<and> (password a = [] \<or> \<not> read_only a))"


section \<open>Properties\<close>

subsection \<open>Auxiliary facts\<close>

lemma set_ip_star: "ip a \<noteq> ''*'' \<Longrightarrow> set_ip a ''*'' = a\<lparr>ip := []\<rparr>"
  by (simp add: Let_def)

lemma set_ip_other: "new \<noteq> ''*'' \<Longrightarrow> set_ip a new = a\<lparr>ip := new\<rparr>"
  by (simp add: Let_def)

lemma set_ip_never_star: "ip a \<noteq> ''*'' \<Longrightarrow> ip (set_ip a new) \<noteq> ''*''"
  by (cases "new = ''*''") (simp_all add: Let_def)

lemma configured_ip_never_star: "ip (foldl set_ip default_app vs) \<noteq> ''*''"
proof (induction vs rule: rev_induct)
  case Nil
  show ?case by (simp add: default_app_def LOCALHOST_def)
next
  case (snoc v vs)
  then show ?case by (simp only: foldl_append foldl.simps set_ip_never_star not_False_eq_True)
qed

lemma upto5: "[p..p + 4] = [p, p + 1, p + 2, p + 3, p + 4]"
  by (simp add: upto_rec1)

lemma randint_range: "a \<le> b \<Longrightarrow> a \<le> randint a b raw \<and> randint a b raw \<le> b"
proof -
  assume ab: "a \<le> b"
  then have pos: "0 < nat (b - a + 1)" by simp
  have "raw mod nat (b - a + 1) < nat (b - a + 1)" using pos by (rule mod_less_divisor)
  then have "int (raw mod nat (b - a + 1)) < b - a + 1" using ab by linarith
  then show ?thesis unfolding randint_def by simp
qed

lemma randint_onto: "a \<le> v \<Longrightarrow> v \<le> b \<Longrightarrow> randint a b (nat (v - a)) = v"
  unfolding randint_def by simp

lemma candidates_unfold:
  "candidates p raw =
     [p, p + 1, p + 2, p + 3, p + 4] @ map (\<lambda>i. p + randint (- 100) 100 (raw i)) [0..<45]"
  by (simp add: candidates_def n_attempts_def upto5)

lemma security_check_ip [simp]: "ip (security_check a) = ip a"
  and security_check_port [simp]: "port (security_check a) = port a"
  and security_check_http [simp]: "http_server (security_check a) = http_server a"
  and security_check_calls [simp]: "listen_calls (security_check a) = listen_calls a"
  by (simp_all add: security_check_def)

lemma listen_loop_in_use_prefix:
  "\<forall>q\<in>set qs. listen q (ip a) = Raises (SocketError EADDRINUSE) \<Longrightarrow>
   listen_loop listen (qs @ rest) a =
     listen_loop listen rest
       (a\<lparr>listen_calls := listen_calls a @ qs,
          log := log a @ map (\<lambda>q. (INFO, PortInUse q)) qs\<rparr>)"
proof (induction qs arbitrary: a)
  case Nil
  show ?case by simp
next
  case (Cons q qs)
  let ?a1 = "a\<lparr>listen_calls := listen_calls a @ [q], log := log a @ [(INFO, PortInUse q)]\<rparr>"
  have q: "listen q (ip a) = Raises (SocketError EADDRINUSE)" using Cons.prems by simp
  have rest: "\<forall>r\<in>set qs. listen r (ip ?a1) = Raises (SocketError EADDRINUSE)"
    using Cons.prems by simp
  have "listen_loop listen ((q # qs) @ rest) a = listen_loop listen (qs @ rest) ?a1"
    using q by (simp add: Let_def)
  also have "\<dots> = listen_loop listen rest
       (?a1\<lparr>listen_calls := listen_calls ?a1 @ qs,
          log := log ?a1 @ map (\<lambda>q. (INFO, PortInUse q)) qs\<rparr>)"
    by (rule Cons.IH [OF rest])
  finally show ?case by simp
qed

lemma listen_loop_log_irrelevant:
  "snd (listen_loop listen ps (a\<lparr>log := l\<rparr>)) = snd (listen_loop listen ps a) \<and>
   (fst (listen_loop listen ps (a\<lparr>log := l\<rparr>)))\<lparr>log := []\<rparr> =
     (fst (listen_loop listen ps a))\<lparr>log := []\<rparr>"
proof (induction ps arbitrary: a l)
  case Nil
  show ?case by simp
next
  case (Cons p ps)
  show ?case
  proof (cases "listen p (ip a)")
    case Listening
    then show ?thesis by (simp add: Let_def)
  next
    case (Raises x)
    show ?thesis
    proof (cases "x = SocketError EADDRINUSE")
      case True
      let ?b = "a\<lparr>listen_calls := listen_calls a @ [p]\<rparr>"
      have l1: "listen_loop listen (p # ps) (a\<lparr>log := l\<rparr>) =
                listen_loop listen ps (?b\<lparr>log := l @ [(INFO, PortInUse p)]\<rparr>)"
        using Raises True by (simp add: Let_def)
      have l2: "listen_loop listen (p # ps) a =
                listen_loop listen ps (?b\<lparr>log := log a @ [(INFO, PortInUse p)]\<rparr>)"
        using Raises True by (simp add: Let_def)
      show ?thesis
        unfolding l1 l2
        using Cons.IH [where a = ?b and l = "l @ [(INFO, PortInUse p)]"]
              Cons.IH [where a = ?b and l = "log a @ [(INFO, PortInUse p)]"]
        by simp
    next
      case False
      then show ?thesis using Raises by (cases x) (simp_all add: Let_def)
    qed
  qed
qed

lemma listen_loop_criticals:
  "filter (\<lambda>e. fst e = CRITICAL) (log (fst (listen_loop listen ps a))) =
   filter (\<lambda>e. fst e = CRITICAL) (log a)"
proof (induction ps arbitrary: a)
  case Nil
  show ?case by simp
next
  case (Cons p ps)
  show ?case
  proof (cases "listen p (ip a)")
    case Listening
    then show ?thesis by (simp add: Let_def)
  next
    case (Raises x)
    show ?thesis
    proof (cases "x = SocketError EADDRINUSE")
      case True
      then show ?thesis using Raises 
        by (simp add: Let_def Cons.IH)
    next
      case False
      then show ?thesis using Raises by (cases x) (simp_all add: Let_def)
    qed
  qed
qed

lemma listen_loop_calls_prefix:
  "\<exists>k. listen_calls (fst (listen_loop listen ps a)) = listen_calls a @ take k ps"
proof (induction ps arbitrary: a)
  case Nil
  show ?case by simp
next
  case (Cons p ps)
  show ?case
  proof (cases "listen p (ip a)")
    case Listening
    then have "listen_calls (fst (listen_loop listen (p # ps) a)) = listen_calls a @ take 1 (p # ps)"
      by (simp add: Let_def)
    then show ?thesis by blast
  next
    case (Raises x)
    show ?thesis
    proof (cases "x = SocketError EADDRINUSE")
      case True
      let ?b = "a\<lparr>listen_calls := listen_calls a @ [p], log := log a @ [(INFO, PortInUse p)]\<rparr>"
      obtain k where "listen_calls (fst (listen_loop listen ps ?b)) = listen_calls ?b @ take k ps"
        using Cons.IH [of ?b] by blast
      then have "listen_calls (fst (listen_loop listen (p # ps) a)) =
                 listen_calls a @ take (Suc k) (p # ps)"
        using Raises True by (simp add: Let_def)
      then show ?thesis by blast
    next
      case False
      then have "listen_calls (fst (listen_loop listen (p # ps) a)) = listen_calls a @ take 1 (p # ps)"
        using Raises by (cases x) (simp_all add: Let_def)
      then show ?thesis by blast
    qed
  qed
qed

subsection \<open>Exhausting the candidates\<close>

lemma init_webapp_exhausted:
  assumes "\<forall>q\<in>set (candidates (port a) raw). listen q (ip a) = Raises (SocketError EADDRINUSE)"
  shows "init_webapp listen raw a =
           ((security_check a)\<lparr>listen_calls := listen_calls a @ candidates (port a) raw,
              log := log (security_check a) @
                     map (\<lambda>q. (INFO, PortInUse q)) (candidates (port a) raw)\<rparr>, None)"
proof -
  have "\<forall>q\<in>set (candidates (port a) raw).
          listen q (ip (security_check a)) = Raises (SocketError EADDRINUSE)"
    using assms by simp
  then have "listen_loop listen (candidates (port a) raw @ []) (security_check a) =
        listen_loop listen []
          ((security_check a)\<lparr>listen_calls := listen_calls (security_check a) @ candidates (port a) raw,
             log := log (security_check a) @
                    map (\<lambda>q. (INFO, PortInUse q)) (candidates (port a) raw)\<rparr>)"
    by (rule listen_loop_in_use_prefix)
  then show ?thesis by (simp add: init_webapp_def Let_def)
qed

text \<open>
  C1. The claim: when every candidate fails to bind with an address-in-use error, port
  acquisition fails with a "no available port" error, and no bound socket is left behind.
  The code at that input: with the default configuration and every bind answering
  address-in-use, \<open>init_webapp\<close> tries all fifty candidates and then returns normally,
  raising nothing; nothing is bound and the port setting keeps its old value.
\<close>

theorem init_webapp_exhausted_returns:
  "snd (init_webapp (\<lambda>p h. Raises (SocketError EADDRINUSE)) (\<lambda>i. 0) default_app) = None \<and>
   http_server (fst (init_webapp (\<lambda>p h. Raises (SocketError EADDRINUSE)) (\<lambda>i. 0) default_app)) = [] \<and>
   port (fst (init_webapp (\<lambda>p h. Raises (SocketError EADDRINUSE)) (\<lambda>i. 0) default_app)) = 8888 \<and>
   listen_calls (fst (init_webapp (\<lambda>p h. Raises (SocketError EADDRINUSE)) (\<lambda>i. 0) default_app)) =
     candidates 8888 (\<lambda>i. 0)"
proof -
  have "init_webapp (\<lambda>p h. Raises (SocketError EADDRINUSE)) (\<lambda>i. 0) default_app =
     ((security_check default_app)\<lparr>listen_calls := listen_calls default_app @ candidates (port default_app) (\<lambda>i. 0),
              log := log (security_check default_app) @
                     map (\<lambda>q. (INFO, PortInUse q)) (candidates (port default_app) (\<lambda>i. 0))\<rparr>, None)"
    by (rule init_webapp_exhausted) simp
  then show ?thesis by (simp add: default_app_def)
qed

subsection \<open>Bind failures\<close>

text \<open>
  C8. Let the candidates be \<open>qs\<close>, then \<open>p\<close>, then \<open>rest\<close>, and let every port of \<open>qs\<close>
  fail to bind with address-in-use. Then each of them is logged and the next candidate is
  tried: the scan continues at \<open>p\<close> with exactly the ports of \<open>qs\<close> recorded as tried and
  logged. If binding \<open>p\<close> raises anything else, that exception propagates out of
  \<open>init_webapp\<close> at once: \<open>p\<close> is the last port tried, no candidate of \<open>rest\<close> is
  tried, and nothing is bound.
\<close>

theorem init_webapp_bind_errors:
  assumes "candidates (port a) raw = qs @ p # rest"
    and "\<forall>q\<in>set qs. listen q (ip a) = Raises (SocketError EADDRINUSE)"
  shows "init_webapp listen raw a =
           listen_loop listen (p # rest)
             ((security_check a)\<lparr>listen_calls := listen_calls a @ qs,
                log := log (security_check a) @ map (\<lambda>q. (INFO, PortInUse q)) qs\<rparr>) \<and>
         (\<forall>x. listen p (ip a) = Raises x \<and> x \<noteq> SocketError EADDRINUSE \<longrightarrow>
            snd (init_webapp listen raw a) = Some x \<and>
            listen_calls (fst (init_webapp listen raw a)) = listen_calls a @ qs @ [p] \<and>
            log (fst (init_webapp listen raw a)) =
              log (security_check a) @ map (\<lambda>q. (INFO, PortInUse q)) qs \<and>
            http_server (fst (init_webapp listen raw a)) = http_server a \<and>
            port (fst (init_webapp listen raw a)) = port a)"
proof -
  let ?b = "(security_check a)\<lparr>listen_calls := listen_calls a @ qs,
                log := log (security_check a) @ map (\<lambda>q. (INFO, PortInUse q)) qs\<rparr>"
  have "\<forall>q\<in>set qs. listen q (ip (security_check a)) = Raises (SocketError EADDRINUSE)"
    using assms(2) by simp
  then have "listen_loop listen (qs @ p # rest) (security_check a) =
        listen_loop listen (p # rest)
          ((security_check a)\<lparr>listen_calls := listen_calls (security_check a) @ qs,
             log := log (security_check a) @ map (\<lambda>q. (INFO, PortInUse q)) qs\<rparr>)"
    by (rule listen_loop_in_use_prefix)
  then have eq: "init_webapp listen raw a = listen_loop listen (p # rest) ?b"
    using assms(1) by (simp add: init_webapp_def Let_def)
  have fatal: "snd (listen_loop listen (p # rest) ?b) = Some x \<and>
        fst (listen_loop listen (p # rest) ?b) = ?b\<lparr>listen_calls := listen_calls ?b @ [p]\<rparr>"
    if "listen p (ip a) = Raises x" and "x \<noteq> SocketError EADDRINUSE" for x
    using that by (cases x) (simp_all add: Let_def)
  show ?thesis
    unfolding eq using fatal by simp
qed

theorem init_webapp_bind_errors_witness:
  "snd (init_webapp (\<lambda>p h. if p = 8888 then Raises (SocketError EADDRINUSE)
                             else if p = 8889 then Raises (SocketError 13) else Listening)
          (\<lambda>i. 0) default_app) = Some (SocketError 13) \<and>
   listen_calls (fst (init_webapp (\<lambda>p h. if p = 8888 then Raises (SocketError EADDRINUSE)
                             else if p = 8889 then Raises (SocketError 13) else Listening)
          (\<lambda>i. 0) default_app)) = [8888, 8889] \<and>
   log (fst (init_webapp (\<lambda>p h. if p = 8888 then Raises (SocketError EADDRINUSE)
                             else if p = 8889 then Raises (SocketError 13) else Listening)
          (\<lambda>i. 0) default_app)) = [(INFO, PortInUse 8888)] \<and>
   http_server (fst (init_webapp (\<lambda>p h. if p = 8888 then Raises (SocketError EADDRINUSE)
                             else if p = 8889 then Raises (SocketError 13) else Listening)
          (\<lambda>i. 0) default_app)) = []"
proof -
  let ?listen = "\<lambda>(p::int) (h::string). if p = 8888 then Raises (SocketError EADDRINUSE)
                             else if p = 8889 then Raises (SocketError 13) else Listening"
  have c: "candidates (port default_app) (\<lambda>i. 0) =
           [8888] @ 8889 # drop 2 (candidates 8888 (\<lambda>i. 0))"
    by (simp add: default_app_def candidates_unfold)
  have u: "\<forall>q\<in>set [8888::int]. ?listen q (ip default_app) = Raises (SocketError EADDRINUSE)"
    by simp
  have f: "?listen 8889 (ip default_app) = Raises (SocketError 13) \<and>
           SocketError 13 \<noteq> SocketError EADDRINUSE"
    by (simp add: EADDRINUSE_def)
  from init_webapp_bind_errors [OF c u] f
  show ?thesis by (simp add: default_app_def security_check_def ssl_options_def LOCALHOST_def)
qed

subsection \<open>The candidate ports\<close>

text \<open>
  C2, as amended. The candidates are the preferred port \<open>p\<close> and the next four in order,
  followed by forty-five more (fifty in all), the \<open>i\<close>-th being \<open>p\<close> plus the \<open>i\<close>-th
  draw of \<open>randint (- 100) 100\<close>: each lies in \<open>[p - 100, p + 100]\<close>, every offset of
  that range can be drawn, each draw is used as it comes (nothing is clamped and nothing
  is removed), and the ports \<open>init_webapp\<close> tries are an initial segment of this list.
\<close>

theorem candidates_sequence:
  "candidates p raw =
     [p, p + 1, p + 2, p + 3, p + 4] @ map (\<lambda>i. p + randint (- 100) 100 (raw i)) [0..<45] \<and>
   length (candidates p raw) = 50 \<and>
   (\<forall>i<45. candidates p raw ! (5 + i) = p + randint (- 100) 100 (raw i) \<and>
            p - 100 \<le> candidates p raw ! (5 + i) \<and> candidates p raw ! (5 + i) \<le> p + 100) \<and>
   (\<forall>v. - 100 \<le> v \<and> v \<le> 100 \<longrightarrow> randint (- 100) 100 (nat (v + 100)) = v) \<and>
   (\<exists>k. listen_calls (fst (init_webapp listen raw a)) =
          listen_calls a @ take k (candidates (port a) raw))"
proof -
  have u: "candidates p raw =
     [p, p + 1, p + 2, p + 3, p + 4] @ map (\<lambda>i. p + randint (- 100) 100 (raw i)) [0..<45]"
    by (rule candidates_unfold)
  have len: "length (candidates p raw) = 50" by (simp add: u)
  have nth: "candidates p raw ! (5 + i) = p + randint (- 100) 100 (raw i)" if "i < 45" for i
  proof -
    have "candidates p raw ! (5 + i) =
          map (\<lambda>i. p + randint (- 100) 100 (raw i)) [0..<45] ! i"
      unfolding u by (simp add: nth_append)
    also have "\<dots> = p + randint (- 100) 100 (raw i)"
      using that by simp
    finally show ?thesis .
  qed
  have rng: "- 100 \<le> randint (- 100) 100 r \<and> randint (- 100) 100 r \<le> 100" for r
    by (rule randint_range) simp
  have bounds: "p - 100 \<le> candidates p raw ! (5 + i) \<and> candidates p raw ! (5 + i) \<le> p + 100"
    if "i < 45" for i
    using nth [OF that] rng [of "raw i"] by simp
  have onto: "randint (- 100) 100 (nat (v + 100)) = v" if "- 100 \<le> v" "v \<le> 100" for v
    using randint_onto [of "- 100" v 100] that by simp
  have pre: "\<exists>k. listen_calls (fst (init_webapp listen raw a)) =
          listen_calls a @ take k (candidates (port a) raw)"
    using listen_loop_calls_prefix [of listen "candidates (port a) raw" "security_check a"]
    by (simp add: init_webapp_def Let_def)
  show ?thesis using u len nth bounds onto pre by blast
qed

theorem candidates_sequence_witness:
  "candidates 8888 (\<lambda>i. 200) ! 7 = 8988 \<and> candidates 8888 (\<lambda>i. 200) ! 8 = 8988 \<and>
   candidates 8888 (\<lambda>i. 200) ! 49 = 8988 \<and> length (candidates 8888 (\<lambda>i. 200)) = 50 \<and>
   randint (- 100) 100 (nat (- 100 + 100)) = - 100"
proof -
  note t = candidates_sequence [of 8888 "\<lambda>i. 200"]
  have r: "randint (- 100) 100 200 = 100" by (simp add: randint_def)
  have len: "length (candidates 8888 (\<lambda>i. 200)) = 50"
    by (rule t [THEN conjunct2, THEN conjunct1])
  have nth: "\<forall>i<45. candidates 8888 (\<lambda>i. 200) ! (5 + i) = 8888 + randint (- 100) 100 200 \<and>
            8888 - 100 \<le> candidates 8888 (\<lambda>i. 200) ! (5 + i) \<and>
            candidates 8888 (\<lambda>i. 200) ! (5 + i) \<le> 8888 + 100"
    by (rule t [THEN conjunct2, THEN conjunct2, THEN conjunct1])
  have onto: "\<forall>v. - 100 \<le> v \<and> v \<le> 100 \<longrightarrow> randint (- 100) 100 (nat (v + 100)) = v"
    by (rule t [THEN conjunct2, THEN conjunct2, THEN conjunct2, THEN conjunct1])
  have n2: "candidates 8888 (\<lambda>i. 200) ! (5 + 2) = 8988"
    using nth [rule_format, of 2] r by simp
  have n3: "candidates 8888 (\<lambda>i. 200) ! (5 + 3) = 8988"
    using nth [rule_format, of 3] r by simp
  have n44: "candidates 8888 (\<lambda>i. 200) ! (5 + 44) = 8988"
    using nth [rule_format, of 44] r by simp
  have o: "randint (- 100) 100 (nat (- 100 + 100)) = - 100"
    using onto [rule_format, of "- 100"] by simp
  show ?thesis using len n2 n3 n44 o by simp
qed

text \<open>
  The sequence is not the one the claim words. With preferred port 65500 and a draw of
  \<open>+100\<close> the sixth candidate is 65600, outside the valid port range, where the claim's
  sequence has the clamped 65535; and the list has 50 entries where the claim's has 55.
\<close>

theorem candidates_not_as_specified:
  "candidates 65500 (\<lambda>i. 200) ! 5 = 65600 \<and>
   spec_candidates 65500 50 (\<lambda>i. 200) ! 5 = 65535 \<and>
   length (candidates 65500 (\<lambda>i. 200)) = 50 \<and>
   length (spec_candidates 65500 50 (\<lambda>i. 200)) = 55 \<and>
   candidates 65500 (\<lambda>i. 200) \<noteq> spec_candidates 65500 n_attempts (\<lambda>i. 200)"
proof -
  have r: "randint (- 100) 100 200 = 100" by (simp add: randint_def)
  have c: "candidates 65500 (\<lambda>i. 200) ! 5 = 65600"
    by (simp add: candidates_unfold r)
  have l: "length (candidates 65500 (\<lambda>i. 200)) = 50" by (simp add: candidates_unfold)
  have sl: "length (spec_candidates 65500 50 (\<lambda>i. 200)) = 55"
    by (simp add: spec_candidates_def upto5)
  have s: "spec_candidates 65500 50 (\<lambda>i. 200) ! 5 = 65535"
    by (simp add: spec_candidates_def upto5 r clamp_port_def)
  have "length (candidates 65500 (\<lambda>i. 200)) \<noteq> length (spec_candidates 65500 n_attempts (\<lambda>i. 200))"
    using l sl by (simp add: n_attempts_def)
  then have "candidates 65500 (\<lambda>i. 200) \<noteq> spec_candidates 65500 n_attempts (\<lambda>i. 200)"
    by auto
  then show ?thesis using c l sl s by simp
qed

subsection \<open>The security warning\<close>

lemma security_check_criticals:
  "filter (\<lambda>e. fst e = CRITICAL) (log (security_check a)) =
   filter (\<lambda>e. fst e = CRITICAL) (log a) @
     (if certfile a = [] \<and> ip a = [] \<and> (password a \<noteq> [] \<or> \<not> read_only a)
      then [(CRITICAL, InsecureWarning)] else [])"
  by (auto simp add: security_check_def ssl_options_def)

lemma security_check_log_only: "security_check a = a\<lparr>log := log (security_check a)\<rparr>"
  by (simp add: security_check_def)

text \<open>
  C3, as amended. \<open>init_webapp\<close> adds exactly one critical entry, the security warning,
  to the log when no certificate is configured, the host is empty (all interfaces) and a
  password is set or read-only mode is off; otherwise it adds no critical entry. The
  warning is advisory: the exception raised, if any, and the application object apart from
  its log are those of the port scan run without the check.
\<close>

theorem security_warning_condition:
  "filter (\<lambda>e. fst e = CRITICAL) (log (fst (init_webapp listen raw a))) =
     filter (\<lambda>e. fst e = CRITICAL) (log a) @
       (if certfile a = [] \<and> ip a = [] \<and> (password a \<noteq> [] \<or> \<not> read_only a)
        then [(CRITICAL, InsecureWarning)] else []) \<and>
   snd (init_webapp listen raw a) = snd (listen_loop listen (candidates (port a) raw) a) \<and>
   (fst (init_webapp listen raw a))\<lparr>log := []\<rparr> =
     (fst (listen_loop listen (candidates (port a) raw) a))\<lparr>log := []\<rparr>"
proof -
  let ?cs = "candidates (port a) raw"
  have iw: "init_webapp listen raw a = listen_loop listen ?cs (security_check a)"
    by (simp add: init_webapp_def Let_def)
  have crit: "filter (\<lambda>e. fst e = CRITICAL) (log (fst (init_webapp listen raw a))) =
     filter (\<lambda>e. fst e = CRITICAL) (log (security_check a))"
    unfolding iw by (rule listen_loop_criticals)
  have "listen_loop listen ?cs (security_check a) =
        listen_loop listen ?cs (a\<lparr>log := log (security_check a)\<rparr>)"
    using security_check_log_only [of a] by simp
  then have same: "snd (init_webapp listen raw a) = snd (listen_loop listen ?cs a) \<and>
     (fst (init_webapp listen raw a))\<lparr>log := []\<rparr> = (fst (listen_loop listen ?cs a))\<lparr>log := []\<rparr>"
    unfolding iw using listen_loop_log_irrelevant [where listen = listen and ps = ?cs and a = a
                       and l = "log (security_check a)"]
    by simp
  show ?thesis using crit same by (simp only: security_check_criticals simp_thms)
qed

theorem security_warning_condition_witness:
  "filter (\<lambda>e. fst e = CRITICAL)
     (log (fst (init_webapp (\<lambda>p h. Listening) (\<lambda>i. 0)
        (default_app\<lparr>ip := [], read_only := True, password := ''sha1:salt:hash''\<rparr>)))) =
     [(CRITICAL, InsecureWarning)] \<and>
   filter (\<lambda>e. fst e = CRITICAL)
     (log (fst (init_webapp (\<lambda>p h. Listening) (\<lambda>i. 0)
        (default_app\<lparr>ip := [], certfile := ''mycert.pem''\<rparr>)))) = [] \<and>
   http_server (fst (init_webapp (\<lambda>p h. Listening) (\<lambda>i. 0)
        (default_app\<lparr>ip := [], read_only := True, password := ''sha1:salt:hash''\<rparr>))) =
     [(8888, [])]"
proof -
  let ?l = "\<lambda>(p::int) (h::string). Listening"
  let ?a = "default_app\<lparr>ip := [], read_only := True, password := ''sha1:salt:hash''\<rparr>"
  let ?b = "default_app\<lparr>ip := [], certfile := ''mycert.pem''\<rparr>"
  note ta = security_warning_condition [of ?l "\<lambda>i. 0" ?a]
  note tb = security_warning_condition [of ?l "\<lambda>i. 0" ?b]
  have 1: "filter (\<lambda>e. fst e = CRITICAL) (log (fst (init_webapp ?l (\<lambda>i. 0) ?a))) =
           [(CRITICAL, InsecureWarning)]"
    using ta [THEN conjunct1] by (simp add: default_app_def)
  have 2: "filter (\<lambda>e. fst e = CRITICAL) (log (fst (init_webapp ?l (\<lambda>i. 0) ?b))) = []"
    using tb [THEN conjunct1] by (simp add: default_app_def)
  have "http_server ((fst (init_webapp ?l (\<lambda>i. 0) ?a))\<lparr>log := []\<rparr>) =
        http_server ((fst (listen_loop ?l (candidates (port ?a) (\<lambda>i. 0)) ?a))\<lparr>log := []\<rparr>)"
    using ta [THEN conjunct2, THEN conjunct2] by simp
  then have 3: "http_server (fst (init_webapp ?l (\<lambda>i. 0) ?a)) = [(8888, [])]"
    by (simp add: candidates_unfold default_app_def Let_def)
  show ?thesis using 1 2 3 by simp
qed

text \<open>
  The claim's condition (no password set, or read-only mode off) differs from the code's
  where read-only mode is on: without a password the claim's condition holds and nothing
  is logged; with a password it fails and the warning is logged.
\<close>

theorem security_warning_not_as_specified:
  "spec_security_warning (default_app\<lparr>ip := [], read_only := True\<rparr>) \<and>
   (CRITICAL, InsecureWarning) \<notin>
     set (log (fst (init_webapp (\<lambda>p h. Listening) (\<lambda>i. 0)
                      (default_app\<lparr>ip := [], read_only := True\<rparr>)))) \<and>
   \<not> spec_security_warning
       (default_app\<lparr>ip := [], read_only := True, password := ''sha1:salt:hash''\<rparr>) \<and>
   (CRITICAL, InsecureWarning) \<in>
     set (log (fst (init_webapp (\<lambda>p h. Listening) (\<lambda>i. 0)
            (default_app\<lparr>ip := [], read_only := True, password := ''sha1:salt:hash''\<rparr>))))"
  by (simp add: spec_security_warning_def init_webapp_def security_check_def ssl_options_def
        default_app_def candidates_unfold Let_def)

subsection \<open>The wildcard host\<close>

text \<open>
  C10. Starting from the defaults, no sequence of assignments leaves \<open>ip\<close> holding the
  wildcard \<open>*\<close>. On an object whose \<open>ip\<close> is not the wildcard, assigning the wildcard
  gives the same object as assigning the empty string, with \<open>ip\<close> empty, so the security
  check, the host shown in the URL and the host given to the browser are those of an empty
  \<open>ip\<close>.
\<close>

theorem ip_wildcard_rewritten:
  "ip (foldl set_ip default_app vs) \<noteq> ''*'' \<and>
   (ip a \<noteq> ''*'' \<longrightarrow>
      ip (set_ip a new) \<noteq> ''*'' \<and>
      set_ip a ''*'' = set_ip a [] \<and>
      ip (set_ip a ''*'') = [] \<and>
      security_check (set_ip a ''*'') = security_check (set_ip a []) \<and>
      display_ip (set_ip a ''*'') = ''[all ip addresses on your system]'' \<and>
      browser_ip (set_ip a ''*'') = ''127.0.0.1'')"
proof -
  have inv: "ip (foldl set_ip default_app vs) \<noteq> ''*''"
    by (rule configured_ip_never_star)
  have rest: "ip (set_ip a new) \<noteq> ''*'' \<and>
      set_ip a ''*'' = set_ip a [] \<and>
      ip (set_ip a ''*'') = [] \<and>
      security_check (set_ip a ''*'') = security_check (set_ip a []) \<and>
      display_ip (set_ip a ''*'') = ''[all ip addresses on your system]'' \<and>
      browser_ip (set_ip a ''*'') = ''127.0.0.1''" if h: "ip a \<noteq> ''*''"
  proof -
    have s: "set_ip a ''*'' = a\<lparr>ip := []\<rparr>" using h by (rule set_ip_star)
    have e: "set_ip a [] = a\<lparr>ip := []\<rparr>" by (rule set_ip_other) simp
    show ?thesis
      using set_ip_never_star [OF h, of new]
      by (simp add: s e display_ip_def browser_ip_def del: set_ip.simps)
  qed
  show ?thesis using inv rest by blast
qed

theorem ip_wildcard_rewritten_witness:
  "ip (foldl set_ip default_app [''*'', ''10.0.0.1'', ''*'']) = [] \<and>
   set_ip default_app ''*'' = set_ip default_app [] \<and>
   ip (set_ip default_app ''*'') = [] \<and>
   display_ip (set_ip default_app ''*'') = ''[all ip addresses on your system]'' \<and>
   browser_ip (set_ip default_app ''*'') = ''127.0.0.1''"
proof -
  have h: "ip default_app \<noteq> ''*''" by (simp add: default_app_def LOCALHOST_def)
  have f: "ip (foldl set_ip default_app [''*'', ''10.0.0.1'', ''*'']) = []"
    by (simp add: default_app_def LOCALHOST_def Let_def)
  note t = ip_wildcard_rewritten [of "[]" default_app "[]", THEN conjunct2, rule_format, OF h]
  note t2 = t [THEN conjunct2]
  note t3 = t2 [THEN conjunct2]
  note t5 = t3 [THEN conjunct2, THEN conjunct2]
  show ?thesis
    by (intro conjI) (rule f t2 [THEN conjunct1] t3 [THEN conjunct1] t5 [THEN conjunct1]
          t5 [THEN conjunct2])+
qed

subsection \<open>The signal coordinator\<close>

lemma lower_char_y: "lower_char c = CHR ''y'' \<longleftrightarrow> c = CHR ''y'' \<or> c = CHR ''Y''"
proof (cases c)
  case (Char b0 b1 b2 b3 b4 b5 b6 b7)
  then show ?thesis
    unfolding lower_char_def Let_def
    apply (cases b0; cases b1; cases b2; cases b3; cases b4; cases b5; cases b6; cases b7)
    apply (simp_all add: char_of_def bit_Suc bit_Suc_0_iff)
    done
qed

lemma startswith_lower_y:
  "startswith (lower line) ''y'' \<longleftrightarrow> (\<exists>rest. line = CHR ''y'' # rest \<or> line = CHR ''Y'' # rest)"
  by (cases line) (auto simp add: startswith_def lower_def lower_char_y)

lemma run_callback_eq: "run_callback c q = q\<lparr>sigint_handler := Handle_sigint\<rparr>"
  by (cases c) (simp add: run_callback_def restore_sigint_handler_def)

lemma run_callbacks_keep:
  "callbacks (foldl (\<lambda>q c. run_callback c q) q cs) = callbacks q \<and>
   loop_stopped (foldl (\<lambda>q c. run_callback c q) q cs) = loop_stopped q"
  by (induction cs arbitrary: q) (simp_all add: run_callback_eq)

lemma run_callbacks_restore:
  assumes "callbacks p = cs @ [Restore_sigint_handler]"
  shows "sigint_handler (run_callbacks p) = Handle_sigint \<and>
         callbacks (run_callbacks p) = [] \<and>
         loop_stopped (run_callbacks p) = loop_stopped p"
proof -
  let ?q = "foldl (\<lambda>q c. run_callback c q) (p\<lparr>callbacks := []\<rparr>) cs"
  have "run_callbacks p = run_callback Restore_sigint_handler ?q"
    using assms by (simp only: run_callbacks_def foldl_append foldl.simps)
  then have r: "run_callbacks p = ?q\<lparr>sigint_handler := Handle_sigint\<rparr>"
    by (simp only: run_callback_eq)
  show ?thesis
    unfolding r using run_callbacks_keep [of "p\<lparr>callbacks := []\<rparr>" cs] by simp
qed

text \<open>
  C4. Let \<open>_handle_sigint\<close> be the registered interrupt handler and the loop not asked to
  stop (state \<open>Normal\<close>). One interrupt signal leads to \<open>ConfirmPending\<close>: the handler
  registered for the interrupt signal is now \<open>_signal_stop\<close> and one more confirmation
  thread runs. A second interrupt signal then leads to \<open>ForcedStop\<close>: the loop is asked
  to stop while the confirmation thread is still outstanding and no callback was queued.
  The same holds for an interrupt in any state where \<open>_signal_stop\<close> is registered.
\<close>

theorem second_interrupt_forces_stop:
  assumes "sigint_handler p = Handle_sigint" and "\<not> loop_stopped p"
  shows "signal_state p = Normal \<and>
         signal_state (deliver SIGINT p) = ConfirmPending \<and>
         sigint_handler (deliver SIGINT p) = Signal_stop \<and>
         confirm_threads (deliver SIGINT p) = Suc (confirm_threads p) \<and>
         signal_state (deliver SIGINT (deliver SIGINT p)) = ForcedStop \<and>
         loop_stopped (deliver SIGINT (deliver SIGINT p)) \<and>
         confirm_threads (deliver SIGINT (deliver SIGINT p)) = Suc (confirm_threads p) \<and>
         callbacks (deliver SIGINT (deliver SIGINT p)) = callbacks p \<and>
         (\<forall>q. sigint_handler q = Signal_stop \<longrightarrow>
              signal_state (deliver SIGINT q) = ForcedStop \<and>
              confirm_threads (deliver SIGINT q) = confirm_threads q)"
  using assms
  by (simp add: signal_state_def deliver_def run_handler_def handle_sigint_def signal_stop_def)

theorem second_interrupt_forces_stop_witness:
  "signal_state (init_signal (new_process default_app)) = Normal \<and>
   signal_state (deliver SIGINT (init_signal (new_process default_app))) = ConfirmPending \<and>
   signal_state (deliver SIGINT (deliver SIGINT (init_signal (new_process default_app)))) =
     ForcedStop \<and>
   confirm_threads (deliver SIGINT (deliver SIGINT (init_signal (new_process default_app)))) = 1"
proof -
  have h: "sigint_handler (init_signal (new_process default_app)) = Handle_sigint"
    and n: "\<not> loop_stopped (init_signal (new_process default_app))"
    by (simp_all add: init_signal_def new_process_def)
  have c: "confirm_threads (init_signal (new_process default_app)) = 0"
    by (simp add: init_signal_def new_process_def)
  from second_interrupt_forces_stop [OF h n] c
  show ?thesis by simp
qed

text \<open>
  C5. The confirmation thread waits in \<open>select\<close> for at most 5 seconds. A line counts as
  a yes when it starts with \<open>y\<close> or \<open>Y\<close>. If such a line is readable within the
  timeout, the thread asks the loop to stop (\<open>ForcedStop\<close>) and queues nothing. In every
  other case (timeout, or another line) it queues exactly one callback, the restoration of
  the original handler, and itself changes neither the registered handler nor the loop;
  when the loop runs its callbacks the original handler is registered again, the queue is
  empty and, unless a stop was requested meanwhile, the state is \<open>Normal\<close>.
\<close>

theorem confirm_exit_outcomes:
  "confirm_wait inp \<le> 5 \<and>
   startswith (lower line) ''y'' = (\<exists>rest. line = CHR ''y'' # rest \<or> line = CHR ''Y'' # rest) \<and>
   ((\<exists>t l. inp = Some (t, l) \<and> t \<le> 5 \<and> startswith (lower l) ''y'') \<longrightarrow>
      loop_stopped (confirm_exit inp p) \<and>
      signal_state (confirm_exit inp p) = ForcedStop \<and>
      callbacks (confirm_exit inp p) = callbacks p \<and>
      sigint_handler (confirm_exit inp p) = sigint_handler p) \<and>
   (\<not> (\<exists>t l. inp = Some (t, l) \<and> t \<le> 5 \<and> startswith (lower l) ''y'') \<longrightarrow>
      callbacks (confirm_exit inp p) = callbacks p @ [Restore_sigint_handler] \<and>
      sigint_handler (confirm_exit inp p) = sigint_handler p \<and>
      loop_stopped (confirm_exit inp p) = loop_stopped p \<and>
      sigint_handler (run_callbacks (confirm_exit inp p)) = Handle_sigint \<and>
      callbacks (run_callbacks (confirm_exit inp p)) = [] \<and>
      (\<not> loop_stopped p \<longrightarrow> signal_state (run_callbacks (confirm_exit inp p)) = Normal))"
proof -
  have w: "confirm_wait inp \<le> 5"
    by (simp add: confirm_wait_def select_stdin_def split: option.splits prod.splits)
  have y: "startswith (lower line) ''y'' =
           (\<exists>rest. line = CHR ''y'' # rest \<or> line = CHR ''Y'' # rest)"
    by (rule startswith_lower_y)
  have yes: "loop_stopped (confirm_exit inp p) \<and>
      signal_state (confirm_exit inp p) = ForcedStop \<and>
      callbacks (confirm_exit inp p) = callbacks p \<and>
      sigint_handler (confirm_exit inp p) = sigint_handler p"
    if "\<exists>t l. inp = Some (t, l) \<and> t \<le> 5 \<and> startswith (lower l) ''y''"
  proof -
    from that obtain t l where i: "inp = Some (t, l)" "t \<le> 5" "startswith (lower l) ''y''"
      by blast
    show ?thesis
      by (simp add: i confirm_exit_def select_stdin_def signal_state_def Let_def)
  qed
  have no: "callbacks (confirm_exit inp p) = callbacks p @ [Restore_sigint_handler] \<and>
      sigint_handler (confirm_exit inp p) = sigint_handler p \<and>
      loop_stopped (confirm_exit inp p) = loop_stopped p"
    if "\<not> (\<exists>t l. inp = Some (t, l) \<and> t \<le> 5 \<and> startswith (lower l) ''y'')"
  proof (cases inp)
    case None
    then show ?thesis
      by (simp add: confirm_exit_def select_stdin_def resume_def Let_def)
  next
    case (Some tl)
    obtain t l where tl: "tl = (t, l)" by (cases tl)
    have "\<not> (t \<le> 5 \<and> startswith (lower l) ''y'')" using that Some tl by simp
    then show ?thesis
      by (auto simp add: Some tl confirm_exit_def select_stdin_def resume_def Let_def)
  qed
  have after: "sigint_handler (run_callbacks (confirm_exit inp p)) = Handle_sigint \<and>
      callbacks (run_callbacks (confirm_exit inp p)) = [] \<and>
      (\<not> loop_stopped p \<longrightarrow> signal_state (run_callbacks (confirm_exit inp p)) = Normal)"
    if n: "\<not> (\<exists>t l. inp = Some (t, l) \<and> t \<le> 5 \<and> startswith (lower l) ''y'')"
  proof -
    note r = run_callbacks_restore [OF no [OF n, THEN conjunct1]]
    show ?thesis using r no [OF n] by (simp add: signal_state_def)
  qed
  show ?thesis using w y yes no after by blast
qed

theorem confirm_exit_outcomes_witness:
  "loop_stopped (confirm_exit (Some (2, ''Yes'')) (deliver SIGINT (init_signal (new_process default_app)))) \<and>
   callbacks (confirm_exit (Some (2, ''Yes'')) (deliver SIGINT (init_signal (new_process default_app)))) = [] \<and>
   callbacks (confirm_exit None (deliver SIGINT (init_signal (new_process default_app)))) =
     [Restore_sigint_handler] \<and>
   sigint_handler (confirm_exit None (deliver SIGINT (init_signal (new_process default_app)))) =
     Signal_stop \<and>
   signal_state (run_callbacks
     (confirm_exit None (deliver SIGINT (init_signal (new_process default_app))))) = Normal \<and>
   callbacks (confirm_exit (Some (7, ''y'')) (deliver SIGINT (init_signal (new_process default_app)))) =
     [Restore_sigint_handler] \<and>
   callbacks (confirm_exit (Some (1, ''no'')) (deliver SIGINT (init_signal (new_process default_app)))) =
     [Restore_sigint_handler]"
proof -
  let ?p = "deliver SIGINT (init_signal (new_process default_app))"
  have p: "callbacks ?p = []" "sigint_handler ?p = Signal_stop" "\<not> loop_stopped ?p"
    by (simp_all add: deliver_def init_signal_def new_process_def run_handler_def
          handle_sigint_def)
  have sy: "startswith (lower ''Yes'') ''y''" "startswith (lower ''y'') ''y''"
           "\<not> startswith (lower ''no'') ''y''"
    by (simp_all add: startswith_lower_y)
  have a: "\<exists>t l. Some (2::nat, ''Yes'') = Some (t, l) \<and> t \<le> 5 \<and> startswith (lower l) ''y''"
    using sy by simp
  have n1: "\<not> (\<exists>t l. (None :: (nat \<times> string) option) = Some (t, l) \<and> t \<le> 5 \<and>
                 startswith (lower l) ''y'')"
    by simp
  have n2: "\<not> (\<exists>t l. Some (7::nat, ''y'') = Some (t, l) \<and> t \<le> 5 \<and> startswith (lower l) ''y'')"
    by simp
  have n3: "\<not> (\<exists>t l. Some (1::nat, ''no'') = Some (t, l) \<and> t \<le> 5 \<and> startswith (lower l) ''y'')"
    using sy by simp
  note yes = confirm_exit_outcomes [of "Some (2, ''Yes'')" "[]" ?p,
      THEN conjunct2, THEN conjunct2, THEN conjunct1, rule_format, OF a]
  note t1 = confirm_exit_outcomes [of None "[]" ?p,
      THEN conjunct2, THEN conjunct2, THEN conjunct2, rule_format, OF n1]
  note t2 = confirm_exit_outcomes [of "Some (7, ''y'')" "[]" ?p,
      THEN conjunct2, THEN conjunct2, THEN conjunct2, rule_format, OF n2]
  note t3 = confirm_exit_outcomes [of "Some (1, ''no'')" "[]" ?p,
      THEN conjunct2, THEN conjunct2, THEN conjunct2, rule_format, OF n3]
  show ?thesis
    using yes t1 t2 t3 p by simp
qed

subsection \<open>Teardown\<close>

lemma kill_all_no_raise:
  assumes "\<forall>kid r. snd (kill_kernel kid r) = None"
  shows "fst (kill_all kill_kernel kids km) = kids \<and>
         snd (snd (kill_all kill_kernel kids km)) = None"
proof (induction kids arbitrary: km)
  case Nil
  show ?case by simp
next
  case (Cons kid kids)
  obtain km1 where k: "kill_kernel kid km = (km1, None)"
    using assms [rule_format, of kid km] by (cases "kill_kernel kid km") simp
  obtain calls km2 r where ka: "kill_all kill_kernel kids km1 = (calls, km2, r)"
    by (cases "kill_all kill_kernel kids km1")
  show ?case using Cons.IH [of km1] by (simp add: k ka)
qed

lemma count_list_distinct: "distinct xs \<Longrightarrow> x \<in> set xs \<Longrightarrow> count_list xs x = 1"
  by (induction xs) (auto simp add: count_list_0_iff)

text \<open>
  C6. \<open>cleanup_kernels\<close> reads the kernel identifiers once, before the loop. Provided
  \<open>kill_kernel\<close> does not raise, the calls of \<open>kill_kernel\<close> are exactly the identifiers
  of that snapshot, in order, whatever each call does to the registry; when the snapshot
  has no duplicates, every identifier in it is passed to \<open>kill_kernel\<close> exactly once.
\<close>

theorem cleanup_kernels_snapshot:
  assumes "\<forall>kid r. snd (kill_kernel kid r) = None"
  shows "fst (snd (cleanup_kernels kernel_ids kill_kernel a km)) = kernel_ids km \<and>
         snd (snd (snd (cleanup_kernels kernel_ids kill_kernel a km))) = None \<and>
         (distinct (kernel_ids km) \<longrightarrow>
            (\<forall>kid\<in>set (kernel_ids km).
               count_list (fst (snd (cleanup_kernels kernel_ids kill_kernel a km))) kid = 1))"
  using kill_all_no_raise [OF assms, of "kernel_ids km" km]
  by (simp add: cleanup_kernels_def count_list_distinct)

theorem cleanup_kernels_snapshot_witness:
  "fst (snd (cleanup_kernels (\<lambda>r. r)
      (\<lambda>kid r. (if kid = ''A'' then filter (\<lambda>k. k \<noteq> ''A'' \<and> k \<noteq> ''B'') r
                  else filter (\<lambda>k. k \<noteq> kid) r, None))
      default_app [''A'', ''B'', ''C''])) = [''A'', ''B'', ''C''] \<and>
   count_list (fst (snd (cleanup_kernels (\<lambda>r. r)
      (\<lambda>kid r. (if kid = ''A'' then filter (\<lambda>k. k \<noteq> ''A'' \<and> k \<noteq> ''B'') r
                  else filter (\<lambda>k. k \<noteq> kid) r, None))
      default_app [''A'', ''B'', ''C'']))) ''B'' = 1 \<and>
   fst (snd (snd (cleanup_kernels (\<lambda>r. r)
      (\<lambda>kid r. (if kid = ''A'' then filter (\<lambda>k. k \<noteq> ''A'' \<and> k \<noteq> ''B'') r
                  else filter (\<lambda>k. k \<noteq> kid) r, None))
      default_app [''A'', ''B'', ''C'']))) = []"
proof -
  let ?kill = "\<lambda>(kid::kernel_id) (r::kernel_id list).
      (if kid = ''A'' then filter (\<lambda>k. k \<noteq> ''A'' \<and> k \<noteq> ''B'') r
       else filter (\<lambda>k. k \<noteq> kid) r, None :: exn option)"
  have h: "\<forall>kid r. snd (?kill kid r) = None" by simp
  have d: "distinct [''A'', ''B'', ''C'']" by simp
  note t = cleanup_kernels_snapshot [OF h, of "\<lambda>r. r" default_app "[''A'', ''B'', ''C'']"]
  have 1: "fst (snd (cleanup_kernels (\<lambda>r. r) ?kill default_app [''A'', ''B'', ''C''])) =
           [''A'', ''B'', ''C'']"
    using t [THEN conjunct1] by simp
  have 2: "count_list (fst (snd (cleanup_kernels (\<lambda>r. r) ?kill default_app
             [''A'', ''B'', ''C'']))) ''B'' = 1"
    using t [THEN conjunct2, THEN conjunct2, rule_format, OF d, of "''B''"] by simp
  have 3: "fst (snd (snd (cleanup_kernels (\<lambda>r. r) ?kill default_app [''A'', ''B'', ''C'']))) = []"
    by (simp add: cleanup_kernels_def)
  show ?thesis using 1 2 3 by simp
qed

lemma run_loop_cleanup:
  "loop_started (run_loop ex kernel_ids kill_kernel a km ths) \<and>
   kill_calls (run_loop ex kernel_ids kill_kernel a km ths) =
     fst (kill_all kill_kernel (kernel_ids km) km) \<and>
   km_after (run_loop ex kernel_ids kill_kernel a km ths) =
     fst (snd (kill_all kill_kernel (kernel_ids km) km)) \<and>
   last (log (app_after (run_loop ex kernel_ids kill_kernel a km ths))) =
     (INFO, ShuttingDownKernels) \<and>
   raised (run_loop ex kernel_ids kill_kernel a km ths) =
     (case snd (snd (kill_all kill_kernel (kernel_ids km) km)) of
        Some e \<Rightarrow> Some e
      | None \<Rightarrow> (case ex of Stopped \<Rightarrow> None
                 | Raised e \<Rightarrow> if e = KeyboardInterrupt then None else Some e))"
proof -
  obtain calls km1 r where k: "kill_all kill_kernel (kernel_ids km) km = (calls, km1, r)"
    by (cases "kill_all kill_kernel (kernel_ids km) km")
  show ?thesis
  proof (cases ex)
    case Stopped
    then show ?thesis
      by (simp add: run_loop_def cleanup_kernels_def k split: option.splits)
  next
    case (Raised e)
    then show ?thesis
      by (cases e) (simp_all add: run_loop_def cleanup_kernels_def k split: option.splits)
  qed
qed

text \<open>
  C7. Whenever \<open>start\<close> runs the event loop, then however the loop exits (it returns
  after a stop request, a keyboard interrupt propagates out of it, or any other exception
  does) \<open>cleanup_kernels\<close> is executed on the kernel manager as it is at that moment:
  its log line is the last one written and its calls of \<open>kill_kernel\<close> are made. A
  keyboard interrupt is swallowed; any other exception propagates after the teardown,
  unless the teardown itself raises.
\<close>

theorem start_always_cleans_up:
  assumes "loop_started (start webbrowser_get ex kernel_ids kill_kernel a km)"
  shows "kill_calls (start webbrowser_get ex kernel_ids kill_kernel a km) =
           fst (kill_all kill_kernel (kernel_ids km) km) \<and>
         km_after (start webbrowser_get ex kernel_ids kill_kernel a km) =
           fst (snd (kill_all kill_kernel (kernel_ids km) km)) \<and>
         last (log (app_after (start webbrowser_get ex kernel_ids kill_kernel a km))) =
           (INFO, ShuttingDownKernels) \<and>
         raised (start webbrowser_get ex kernel_ids kill_kernel a km) =
           (case snd (snd (kill_all kill_kernel (kernel_ids km) km)) of
              Some e \<Rightarrow> Some e
            | None \<Rightarrow> (case ex of Stopped \<Rightarrow> None
                       | Raised e \<Rightarrow> if e = KeyboardInterrupt then None else Some e)) \<and>
         ((\<forall>kid r. snd (kill_kernel kid r) = None) \<longrightarrow>
            kill_calls (start webbrowser_get ex kernel_ids kill_kernel a km) = kernel_ids km)"
proof -
  let ?a1 = "a\<lparr>log := log a @
                 [(INFO, RunningAt (proto a) (display_ip a) (port a) (base_project_url a)),
                  (INFO, UseControlC)]\<rparr>"
  have "\<exists>ths. start webbrowser_get ex kernel_ids kill_kernel a km =
              run_loop ex kernel_ids kill_kernel ?a1 km ths"
    using assms by (auto simp add: start_def Let_def split: if_splits option.splits)
  then obtain ths where s: "start webbrowser_get ex kernel_ids kill_kernel a km =
              run_loop ex kernel_ids kill_kernel ?a1 km ths"
    by blast
  note r = run_loop_cleanup [of ex kernel_ids kill_kernel ?a1 km ths]
  have all: "kill_calls (start webbrowser_get ex kernel_ids kill_kernel a km) = kernel_ids km"
    if "\<forall>kid r. snd (kill_kernel kid r) = None"
    using r kill_all_no_raise [OF that, of "kernel_ids km" km] by (simp add: s)
  show ?thesis unfolding s using r all [unfolded s] by blast
qed

theorem start_always_cleans_up_witness:
  "kill_calls (start (\<lambda>name. None) Stopped (\<lambda>r. r)
      (\<lambda>kid r. (filter (\<lambda>k. k \<noteq> kid) r, None)) default_app [''A'', ''B'']) = [''A'', ''B''] \<and>
   kill_calls (start (\<lambda>name. None) (Raised KeyboardInterrupt) (\<lambda>r. r)
      (\<lambda>kid r. (filter (\<lambda>k. k \<noteq> kid) r, None)) default_app [''A'', ''B'']) = [''A'', ''B''] \<and>
   raised (start (\<lambda>name. None) (Raised KeyboardInterrupt) (\<lambda>r. r)
      (\<lambda>kid r. (filter (\<lambda>k. k \<noteq> kid) r, None)) default_app [''A'', ''B'']) = None \<and>
   kill_calls (start (\<lambda>name. None) (Raised (OtherError ''boom'')) (\<lambda>r. r)
      (\<lambda>kid r. (filter (\<lambda>k. k \<noteq> kid) r, None)) default_app [''A'', ''B'']) = [''A'', ''B''] \<and>
   raised (start (\<lambda>name. None) (Raised (OtherError ''boom'')) (\<lambda>r. r)
      (\<lambda>kid r. (filter (\<lambda>k. k \<noteq> kid) r, None)) default_app [''A'', ''B'']) =
     Some (OtherError ''boom'')"
proof -
  let ?wg = "\<lambda>name :: string option. None :: exn option"
  let ?kill = "\<lambda>(kid::kernel_id) (r::kernel_id list). (filter (\<lambda>k. k \<noteq> kid) r, None :: exn option)"
  let ?ids = "\<lambda>r :: kernel_id list. r"
  have ls: "loop_started (start ?wg ex ?ids ?kill default_app [''A'', ''B''])" for ex
    by (simp add: start_def default_app_def Let_def run_loop_cleanup)
  have nr: "\<forall>kid r. snd (?kill kid r) = None" by simp
  have ka: "kill_all ?kill [''A'', ''B''] [''A'', ''B''] = ([''A'', ''B''], [], None)" by simp
  note t1 = start_always_cleans_up [OF ls [of Stopped]]
  note t2 = start_always_cleans_up [OF ls [of "Raised KeyboardInterrupt"]]
  note t3 = start_always_cleans_up [OF ls [of "Raised (OtherError ''boom'')"]]
  have 1: "kill_calls (start ?wg Stopped ?ids ?kill default_app [''A'', ''B'']) = [''A'', ''B'']"
    using t1 [THEN conjunct1] ka by simp
  have 2: "kill_calls (start ?wg (Raised KeyboardInterrupt) ?ids ?kill default_app [''A'', ''B'']) =
           [''A'', ''B'']"
    using t2 [THEN conjunct1] ka by simp
  have 3: "raised (start ?wg (Raised KeyboardInterrupt) ?ids ?kill default_app [''A'', ''B'']) = None"
    using t2 [THEN conjunct2, THEN conjunct2, THEN conjunct2, THEN conjunct1] ka by simp
  have 4: "kill_calls (start ?wg (Raised (OtherError ''boom'')) ?ids ?kill default_app
             [''A'', ''B'']) = [''A'', ''B'']"
    using t3 [THEN conjunct1] ka by simp
  have 5: "raised (start ?wg (Raised (OtherError ''boom'')) ?ids ?kill default_app [''A'', ''B'']) =
           Some (OtherError ''boom'')"
    using t3 [THEN conjunct2, THEN conjunct2, THEN conjunct2, THEN conjunct1] ka by simp
  show ?thesis using 1 2 3 4 5 by simp
qed

subsection \<open>Launching the browser\<close>

lemma start_browser_lookup_raises:
  assumes "open_browser a"
    and "webbrowser_get (if browser a \<noteq> [] then Some (browser a) else None) = Some e"
  shows "raised (start webbrowser_get ex kernel_ids kill_kernel a km) = Some e \<and>
         \<not> loop_started (start webbrowser_get ex kernel_ids kill_kernel a km) \<and>
         kill_calls (start webbrowser_get ex kernel_ids kill_kernel a km) = [] \<and>
         browser_threads (start webbrowser_get ex kernel_ids kill_kernel a km) = []"
  using assms by (simp add: start_def Let_def)

text \<open>
  C9. The claim: a failure of the browser-launch step is never fatal and never prevents
  the event loop from running. The code at a failing input: with the default configuration
  (\<open>open_browser\<close> on, no browser named) and \<^verbatim>\<open>webbrowser.get()\<close> raising because no
  browser can be located, the exception propagates out of \<open>start\<close>; the event loop is
  never run and no kernel is asked to stop.
\<close>

theorem start_browser_failure_is_fatal:
  "raised (start (\<lambda>name. Some WebbrowserError) Stopped (\<lambda>r. r)
      (\<lambda>kid r. (filter (\<lambda>k. k \<noteq> kid) r, None)) default_app [''A'']) = Some WebbrowserError \<and>
   \<not> loop_started (start (\<lambda>name. Some WebbrowserError) Stopped (\<lambda>r. r)
      (\<lambda>kid r. (filter (\<lambda>k. k \<noteq> kid) r, None)) default_app [''A'']) \<and>
   kill_calls (start (\<lambda>name. Some WebbrowserError) Stopped (\<lambda>r. r)
      (\<lambda>kid r. (filter (\<lambda>k. k \<noteq> kid) r, None)) default_app [''A'']) = []"
proof -
  have o: "open_browser default_app" by (simp add: default_app_def)
  have w: "(\<lambda>name :: string option. Some WebbrowserError)
             (if browser default_app \<noteq> [] then Some (browser default_app) else None) =
           Some WebbrowserError"
    by simp
  from start_browser_lookup_raises [OF o w, where ex = Stopped and kernel_ids = "\<lambda>r. r"
      and kill_kernel = "\<lambda>kid r. (filter (\<lambda>k. k \<noteq> kid) r, None)" and km = "[''A'']"]
  show ?thesis by simp
qed

end
